theory Spec2Isabelle
  imports Complex_Main "HOL-Library.AList"
begin

unbundle bit_operations_syntax

section \<open>The survey page of script.js\<close>

text \<open>
  A shallow embedding of \<^verbatim>\<open>src/script.js\<close>. Strings are the lists of their UTF-8
  bytes; every character the script looks for is ASCII, so a prefix or the last slash of
  a string is found where the script finds it. The browser's
  localStorage is an association list together with a trace of the calls the script makes
  on it; the page is a record of the elements the script touches. What the browser
  decides (random numbers, the clock, constraint validation, the form's entry list, the
  result of the request, the printing and parsing of numbers) is an argument of the
  function that asks for it.
\<close>

subsection \<open>localStorage\<close>

text \<open>
  The script uses \<^verbatim>\<open>getItem\<close>, \<^verbatim>\<open>setItem\<close>, \<^verbatim>\<open>removeItem\<close> and
  \<^verbatim>\<open>Object.keys(localStorage)\<close>. Each of the first three records the key it was
  called with, so that the keys the program touches can be talked about.
\<close>

datatype access = GetItem string | SetItem string | RemoveItem string

record store =
  items :: "(string \<times> string) list"
  trace :: "access list"

definition getItem :: "string \<Rightarrow> store \<Rightarrow> string option \<times> store" where
  "getItem key s = (map_of (items s) key, s\<lparr>trace := trace s @ [GetItem key]\<rparr>)"

definition setItem :: "string \<Rightarrow> string \<Rightarrow> store \<Rightarrow> store" where
  "setItem key v s =
     s\<lparr>items := AList.update key v (items s), trace := trace s @ [SetItem key]\<rparr>"

definition removeItem :: "string \<Rightarrow> store \<Rightarrow> store" where
  "removeItem key s =
     s\<lparr>items := AList.delete key (items s), trace := trace s @ [RemoveItem key]\<rparr>"

definition keys :: "store \<Rightarrow> string list" where
  "keys s = map fst (items s)"

fun access_key :: "access \<Rightarrow> string" where
  "access_key (GetItem k) = k"
| "access_key (SetItem k) = k"
| "access_key (RemoveItem k) = k"

definition startsWith :: "string \<Rightarrow> string \<Rightarrow> bool" where
  "startsWith s p = (take (length p) s = p)"

definition STORAGE_PREFIX :: string where
  "STORAGE_PREFIX = ''music_survey_''"

definition GAS_WEB_APP_URL :: string where
  "GAS_WEB_APP_URL = ''https://script.google.com/macros/s/AKfycbxiVrXBRaWDxZZRxDAqOCn-dMeJ6ZPr6JyAktUx5Deo9-zGg17jm6s66rxJmAxZ5mI0TA/exec''"

text \<open>
  \<^verbatim>\<open>clearSurveyStorage\<close>: the array of keys is taken once, then every key with the
  audio prefix is removed.
\<close>

definition clearSurveyStorage :: "store \<Rightarrow> store" where
  "clearSurveyStorage s =
     fold (\<lambda>key s'. if startsWith key (STORAGE_PREFIX @ ''audio_'') then removeItem key s' else s')
       (keys s) s"

subsection \<open>The identifier\<close>

text \<open>
  \<^verbatim>\<open>Math.random()\<close> is a sequence of numbers: the i-th call returns \<open>rnd i\<close>. A double
  is a rational number, and \<^verbatim>\<open>x * 16\<close> is exact on doubles. \<^verbatim>\<open>e | 0\<close> is ToInt32:
  truncation towards zero, then reduction to the signed 32-bit range.
\<close>

definition ToInt32 :: "rat \<Rightarrow> int" where
  "ToInt32 q =
     (let t = (if q < 0 then - \<lfloor>- q\<rfloor> else \<lfloor>q\<rfloor>);
          m = t mod 2 ^ 32
      in if m \<ge> 2 ^ 31 then m - 2 ^ 32 else m)"

definition hex_digit :: "nat \<Rightarrow> char" where
  "hex_digit n = ''0123456789abcdef'' ! n"

fun hex_digits :: "nat \<Rightarrow> string" where
  "hex_digits n = (if n < 16 then [hex_digit n] else hex_digits (n div 16) @ [hex_digit (n mod 16)])"

declare hex_digits.simps [simp del]

text \<open>\<^verbatim>\<open>v.toString(16)\<close> for an integer \<open>v\<close>.\<close>

definition toString16 :: "int \<Rightarrow> string" where
  "toString16 v = (if v < 0 then CHR ''-'' # hex_digits (nat (- v)) else hex_digits (nat v))"

text \<open>The function given to \<^verbatim>\<open>replace\<close>, with the random number it draws.\<close>

definition uuid_replacer :: "char \<Rightarrow> rat \<Rightarrow> string" where
  "uuid_replacer c x =
     (let r = ToInt32 (x * 16);
          v = (if c = CHR ''x'' then r else (r AND 3) OR 8)
      in toString16 v)"

text \<open>
  \<^verbatim>\<open>template.replace(/[xy]/g, f)\<close>: from left to right, every \<open>x\<close> or \<open>y\<close> is replaced
  by what \<open>f\<close> returns for it; \<open>i\<close> counts the calls of \<^verbatim>\<open>Math.random()\<close> so far.
\<close>

fun replace_xy :: "string \<Rightarrow> (nat \<Rightarrow> rat) \<Rightarrow> nat \<Rightarrow> string" where
  "replace_xy [] rnd i = []"
| "replace_xy (c # cs) rnd i =
     (if c = CHR ''x'' \<or> c = CHR ''y''
      then uuid_replacer c (rnd i) @ replace_xy cs rnd (Suc i)
      else c # replace_xy cs rnd i)"

definition uuid_template :: string where
  "uuid_template = ''xxxxxxxx-xxxx-4xxx-yxxx-xxxxxxxxxxxx''"

definition generate_uuid :: "(nat \<Rightarrow> rat) \<Rightarrow> string" where
  "generate_uuid rnd = replace_xy uuid_template rnd 0"

text \<open>
  \<^verbatim>\<open>getOrCreateUUID\<close>. \<^verbatim>\<open>!uuid\<close> holds when the key is absent (\<^verbatim>\<open>null\<close>) and when the
  stored string is empty.
\<close>

definition getOrCreateUUID :: "(nat \<Rightarrow> rat) \<Rightarrow> store \<Rightarrow> string \<times> store" where
  "getOrCreateUUID rnd s =
     (let key = STORAGE_PREFIX @ ''user_uuid'';
          (uuid, s1) = getItem key s
      in case uuid of
           Some u \<Rightarrow>
             if u \<noteq> [] then (u, s1)
             else (let u' = generate_uuid rnd in (u', setItem key u' s1))
         | None \<Rightarrow> (let u' = generate_uuid rnd in (u', setItem key u' s1)))"

subsection \<open>The page\<close>

text \<open>
  The texts the script shows are Chinese string literals; each is a constructor here.
  \<open>Markup\<close> is a text that came with the page.
\<close>

datatype ui_text =
    Markup string
  | MsgChooseRelaxing       \<comment> \<open>message of the group \<open>styles_soft_relaxing\<close>\<close>
  | MsgChooseUncomfortable  \<comment> \<open>message of the group \<open>styles_intense_emotional\<close>\<close>
  | MsgCompleteRequired     \<comment> \<open>"please complete all required items"\<close>
  | MsgSubmitting           \<comment> \<open>"submitting..."\<close>
  | MsgSuccess              \<comment> \<open>"submitted, thank you"\<close>
  | MsgFailed               \<comment> \<open>"submission failed: check the network and retry"\<close>
  | MsgAlreadyCompleted     \<comment> \<open>"you have completed this survey"\<close>
  | BtnProcessing           \<comment> \<open>button text "processing..."\<close>
  | BtnSubmit               \<comment> \<open>button text "submit survey"\<close>

text \<open>
  An element below the form: its lower-case tag name, its \<open>type\<close> and \<open>name\<close> attributes
  (\<open>None\<close> when absent, values in lower case), and the properties the script reads or
  writes.
\<close>

record element =
  tag :: string
  type_attr :: "string option"
  name_attr :: "string option"
  checked :: bool
  default_checked :: bool
  disabled :: bool
  textContent :: ui_text

text \<open>
  An audio element. \<open>source_src\<close> is the \<open>src\<close> of its first \<open>source\<close> child, if it has
  one. \<open>listeners\<close> holds, for each pair of \<open>timeupdate\<close> and \<open>ended\<close> listeners that
  \<^verbatim>\<open>initAudioPersistence\<close> registered on it, the \<open>storageKey\<close> the pair closes over.
  The type \<open>'t\<close> is the type of numbers; how they are printed and parsed is a parameter.
\<close>

record 't audio =
  currentSrc :: string
  source_src :: "string option"
  currentTime :: 't
  paused :: bool
  listeners :: "string list"

datatype task = LockFormTask

record request =
  url :: string
  http_method :: string
  mode :: string
  content_type :: string
  body :: string

record 't page =
  elements :: "element list"
  form_opacity :: string
  form_pointerEvents :: string
  status_text :: ui_text
  status_class :: string
  status_opacity :: string
  status_fontWeight :: string
  storage :: store
  audios :: "'t audio list"
  timers :: "(task \<times> nat) list"
  submit_listener :: bool
  in_flight :: "request list"

definition showStatus :: "ui_text \<Rightarrow> string \<Rightarrow> 't page \<Rightarrow> 't page" where
  "showStatus message ty st = st\<lparr>status_text := message, status_class := ty\<rparr>"

text \<open>\<^verbatim>\<open>lockForm\<close>: \<^verbatim>\<open>form.querySelectorAll('input, button, textarea')\<close>, all disabled.\<close>

definition lockForm :: "'t page \<Rightarrow> 't page" where
  "lockForm st =
     st\<lparr>elements :=
          map (\<lambda>input. if tag input \<in> {''input'', ''button'', ''textarea''}
                        then input\<lparr>disabled := True\<rparr> else input) (elements st),
        form_opacity := ''0.6'',
        form_pointerEvents := ''none'',
        status_opacity := ''1'',
        status_fontWeight := ''bold''\<rparr>"

definition checkIfSubmitted :: "'t page \<Rightarrow> 't page" where
  "checkIfSubmitted st =
     (let (v, sto) = getItem (STORAGE_PREFIX @ ''completed'') (storage st);
          st1 = st\<lparr>storage := sto\<rparr>
      in if v = Some ''true''
         then showStatus MsgAlreadyCompleted ''info'' (lockForm st1)
         else st1)"

text \<open>
  \<^verbatim>\<open>validateCheckboxGroups\<close>: the loop over \<open>requiredGroups\<close> returns at the first group
  with no checked box. Scrolling the question into view changes nothing modelled here.
\<close>

definition requiredGroups :: "(string \<times> ui_text) list" where
  "requiredGroups =
     [(''styles_soft_relaxing'', MsgChooseRelaxing),
      (''styles_intense_emotional'', MsgChooseUncomfortable)]"

fun validate_groups :: "(string \<times> ui_text) list \<Rightarrow> 't page \<Rightarrow> bool \<times> 't page" where
  "validate_groups [] st = (True, st)"
| "validate_groups ((name, message) # groups) st =
     (let checkboxes =
            filter (\<lambda>e. tag e = ''input'' \<and> type_attr e = Some ''checkbox'' \<and> name_attr e = Some name)
              (elements st);
          isChecked = list_ex checked checkboxes
      in if \<not> isChecked then (False, showStatus message ''error'' st)
         else validate_groups groups st)"

definition validateCheckboxGroups :: "'t page \<Rightarrow> bool \<times> 't page" where
  "validateCheckboxGroups st = validate_groups requiredGroups st"

text \<open>
  \<^verbatim>\<open>form.querySelector('button[type="submit"]')\<close> followed by writes to the element found:
  the first match is updated in place; \<open>None\<close> when nothing matches, where the script
  dereferences \<^verbatim>\<open>null\<close> and a TypeError is thrown.
\<close>

definition is_submit_button :: "element \<Rightarrow> bool" where
  "is_submit_button e = (tag e = ''button'' \<and> type_attr e = Some ''submit'')"

fun update_first :: "('a \<Rightarrow> bool) \<Rightarrow> ('a \<Rightarrow> 'a) \<Rightarrow> 'a list \<Rightarrow> 'a list option" where
  "update_first P f [] = None"
| "update_first P f (x # xs) =
     (if P x then Some (f x # xs) else map_option ((#) x) (update_first P f xs))"

text \<open>\<^verbatim>\<open>form.reset()\<close>: every input goes back to its default checkedness.\<close>

definition form_reset :: "'t page \<Rightarrow> 't page" where
  "form_reset st =
     st\<lparr>elements :=
          map (\<lambda>e. if tag e = ''input'' then e\<lparr>checked := default_checked e\<rparr> else e) (elements st)\<rparr>"

definition setTimeout :: "task \<Rightarrow> nat \<Rightarrow> 't page \<Rightarrow> 't page" where
  "setTimeout t delay st = st\<lparr>timers := timers st @ [(t, delay)]\<rparr>"

fun run_task :: "task \<Rightarrow> 't page \<Rightarrow> 't page" where
  "run_task LockFormTask st = lockForm st"

subsection \<open>The request body\<close>

text \<open>
  \<^verbatim>\<open>new URLSearchParams(formData).toString()\<close>: the serializer of
  application/x-www-form-urlencoded. Letters, digits and \<open>*-._\<close> stay, a space becomes
  \<open>+\<close>, every other byte becomes \<open>%\<close> and two upper-case hexadecimal digits.
\<close>

definition urlencode_byte :: "char \<Rightarrow> string" where
  "urlencode_byte c =
     (if c \<in> set ''abcdefghijklmnopqrstuvwxyzABCDEFGHIJKLMNOPQRSTUVWXYZ0123456789*-._'' then [c]
      else if c = CHR '' '' then ''+''
      else [CHR ''%'', ''0123456789ABCDEF'' ! (of_char c div 16),
            ''0123456789ABCDEF'' ! (of_char c mod 16)])"

definition urlencode :: "string \<Rightarrow> string" where
  "urlencode s = concat (map urlencode_byte s)"

fun join_amp :: "string list \<Rightarrow> string" where
  "join_amp [] = []"
| "join_amp [p] = p"
| "join_amp (p # q # ps) = p @ ''&'' @ join_amp (q # ps)"

definition URLSearchParams_toString :: "(string \<times> string) list \<Rightarrow> string" where
  "URLSearchParams_toString ps = join_amp (map (\<lambda>(n, v). urlencode n @ ''='' @ urlencode v) ps)"

subsection \<open>The submit handler\<close>

text \<open>
  What the browser supplies to one run of the handler: the result of
  \<^verbatim>\<open>form.checkValidity()\<close>, the entry list of \<^verbatim>\<open>new FormData(form)\<close>, the string of
  \<^verbatim>\<open>new Date().toISOString()\<close>, and \<^verbatim>\<open>Math.random\<close>.
\<close>

record submit_env =
  native_valid :: bool
  entries :: "(string \<times> string) list"
  now_iso :: string
  math_random :: "nat \<Rightarrow> rat"

text \<open>
  The handler is an async function: it runs to its \<^verbatim>\<open>await fetch(...)\<close>
  (\<open>submit_start\<close>), and goes on when the request has settled (\<open>submit_resume\<close>).
  \<open>Rejected\<close> is an exception that leaves the handler.
\<close>

datatype outcome = Returned | Awaiting request | Rejected

datatype fetch_result = Response string | NetworkError

definition catch_block :: "'t page \<Rightarrow> 't page \<times> outcome" where
  "catch_block st =
     (case update_first is_submit_button (\<lambda>b. b\<lparr>disabled := False, textContent := BtnSubmit\<rparr>)
             (elements st) of
        None \<Rightarrow> (st, Rejected)
      | Some es \<Rightarrow> (showStatus MsgFailed ''error'' (st\<lparr>elements := es\<rparr>), Returned))"

definition submit_start :: "submit_env \<Rightarrow> 't page \<Rightarrow> 't page \<times> outcome" where
  "submit_start env st =
     (let (ok, st1) = validateCheckboxGroups st
      in if \<not> ok then (st1, Returned)
         else if \<not> native_valid env then (showStatus MsgCompleteRequired ''error'' st1, Returned)
         else
           (let formData = entries env @ [(''submission_time'', now_iso env)];
                (uuid, sto) = getOrCreateUUID (math_random env) (storage st1);
                formData = formData @ [(''uuid'', uuid)];
                st2 = showStatus MsgSubmitting ''info'' (st1\<lparr>storage := sto\<rparr>)
            in case update_first is_submit_button
                      (\<lambda>b. b\<lparr>disabled := True, textContent := BtnProcessing\<rparr>) (elements st2) of
                 None \<Rightarrow> catch_block st2
               | Some es \<Rightarrow>
                   (st2\<lparr>elements := es\<rparr>,
                    Awaiting \<lparr>url = GAS_WEB_APP_URL, http_method = ''POST'', mode = ''no-cors'',
                      content_type = ''application/x-www-form-urlencoded'',
                      body = URLSearchParams_toString formData\<rparr>)))"

definition submit_resume :: "fetch_result \<Rightarrow> 't page \<Rightarrow> 't page \<times> outcome" where
  "submit_resume response st =
     (case response of
        Response ty \<Rightarrow>
          if ty = ''opaque'' then
            (let st1 = showStatus MsgSuccess ''success'' st;
                 st2 = form_reset st1;
                 st3 = st2\<lparr>storage := clearSurveyStorage (storage st2)\<rparr>;
                 st4 = st3\<lparr>storage := setItem (STORAGE_PREFIX @ ''completed'') ''true'' (storage st3)\<rparr>
             in (setTimeout LockFormTask 1500 st4, Returned))
          else catch_block st
      | NetworkError \<Rightarrow> catch_block st)"

text \<open>One whole run of the handler, with the network as a function of the request.\<close>

definition submit_handler ::
  "submit_env \<Rightarrow> (request \<Rightarrow> fetch_result) \<Rightarrow> 't page \<Rightarrow> 't page \<times> outcome" where
  "submit_handler env fetch st =
     (case submit_start env st of
        (st1, Awaiting req) \<Rightarrow> submit_resume (fetch req) st1
      | (st1, out) \<Rightarrow> (st1, out))"

subsection \<open>Audio progress\<close>

text \<open>\<^verbatim>\<open>audio.currentSrc || audio.querySelector('source')?.src\<close>, \<open>None\<close> when falsy.\<close>

definition audio_src :: "'t audio \<Rightarrow> string option" where
  "audio_src a =
     (if currentSrc a \<noteq> [] then Some (currentSrc a)
      else case source_src a of
             None \<Rightarrow> None
           | Some src \<Rightarrow> if src \<noteq> [] then Some src else None)"

text \<open>\<^verbatim>\<open>lastIndexOf\<close> is -1 when the character does not occur.\<close>

definition lastIndexOf :: "char \<Rightarrow> string \<Rightarrow> int" where
  "lastIndexOf c s =
     (case filter (\<lambda>i. s ! i = c) (rev [0..<length s]) of
        [] \<Rightarrow> - 1
      | i # _ \<Rightarrow> int i)"

definition substring :: "int \<Rightarrow> string \<Rightarrow> string" where
  "substring start s = drop (nat start) s"

definition audio_storageKey :: "string \<Rightarrow> string" where
  "audio_storageKey src =
     (let fileName = substring (lastIndexOf (CHR ''/'') src + 1) src
      in STORAGE_PREFIX @ ''audio_'' @ fileName)"

text \<open>
  The body of the \<^verbatim>\<open>forEach\<close> of \<^verbatim>\<open>initAudioPersistence\<close>, for one audio element.
  \<open>parseFloat\<close> returns \<open>None\<close> for a string whose value is not a finite number: the
  assignment to \<^verbatim>\<open>currentTime\<close> then throws a TypeError, before the listeners are
  added. The third component is \<open>False\<close> when that happened.
\<close>

definition init_audio ::
  "(string \<Rightarrow> 't option) \<Rightarrow> 't audio \<Rightarrow> store \<Rightarrow> 't audio \<times> store \<times> bool" where
  "init_audio parseFloat a s =
     (case audio_src a of
        None \<Rightarrow> (a, s, True)
      | Some src \<Rightarrow>
          (let storageKey = audio_storageKey src;
               (savedTime, s1) = getItem storageKey s;
               added = a\<lparr>listeners := listeners a @ [storageKey]\<rparr>
           in case savedTime of
                None \<Rightarrow> (added, s1, True)
              | Some v \<Rightarrow>
                  if v = [] then (added, s1, True)
                  else (case parseFloat v of
                          None \<Rightarrow> (a, s1, False)
                        | Some t \<Rightarrow> (added\<lparr>currentTime := t\<rparr>, s1, True))))"

fun init_audios ::
  "(string \<Rightarrow> 't option) \<Rightarrow> 't audio list \<Rightarrow> store \<Rightarrow> 't audio list \<times> store \<times> bool" where
  "init_audios parseFloat [] s = ([], s, True)"
| "init_audios parseFloat (a # as) s =
     (case init_audio parseFloat a s of
        (a', s', False) \<Rightarrow> (a' # as, s', False)
      | (a', s', True) \<Rightarrow>
          (case init_audios parseFloat as s' of (as', s'', ok) \<Rightarrow> (a' # as', s'', ok)))"

definition initAudioPersistence :: "(string \<Rightarrow> 't option) \<Rightarrow> 't page \<Rightarrow> 't page \<times> bool" where
  "initAudioPersistence parseFloat st =
     (case init_audios parseFloat (audios st) (storage st) of
        (as, sto, ok) \<Rightarrow> (st\<lparr>audios := as, storage := sto\<rparr>, ok))"

text \<open>The two listeners of one audio element, for every key registered on it.\<close>

definition on_timeupdate :: "('t \<Rightarrow> string) \<Rightarrow> 't audio \<Rightarrow> store \<Rightarrow> store" where
  "on_timeupdate toString a s =
     fold (\<lambda>storageKey s'. if \<not> paused a then setItem storageKey (toString (currentTime a)) s' else s')
       (listeners a) s"

definition on_ended :: "'t audio \<Rightarrow> store \<Rightarrow> store" where
  "on_ended a s = fold (\<lambda>storageKey s'. removeItem storageKey s') (listeners a) s"

subsection \<open>The program as a whole\<close>

text \<open>
  The \<^verbatim>\<open>DOMContentLoaded\<close> listener: \<^verbatim>\<open>checkIfSubmitted\<close>, \<^verbatim>\<open>initAudioPersistence\<close>,
  then the submit listener is added; an exception in between leaves it out.
\<close>

definition DOMContentLoaded :: "(string \<Rightarrow> 't option) \<Rightarrow> 't page \<Rightarrow> 't page" where
  "DOMContentLoaded parseFloat st =
     (case initAudioPersistence parseFloat (checkIfSubmitted st) of
        (st', ok) \<Rightarrow> if ok then st'\<lparr>submit_listener := True\<rparr> else st')"

text \<open>
  What can happen afterwards: the form is submitted, a request in flight settles, the
  oldest timer fires, an audio element gets a \<open>timeupdate\<close> or \<open>ended\<close> event, or
  playback moves an audio element's position and pause state.
\<close>

datatype 't event =
    Submit submit_env
  | FetchSettled nat fetch_result
  | TimerFired
  | TimeUpdate nat
  | Ended nat
  | Playback nat 't bool

fun dispatch :: "('t \<Rightarrow> string) \<Rightarrow> 't event \<Rightarrow> 't page \<Rightarrow> 't page" where
  "dispatch toString (Submit env) st =
     (if submit_listener st then
        (case submit_start env st of
           (st', Awaiting req) \<Rightarrow> st'\<lparr>in_flight := in_flight st' @ [req]\<rparr>
         | (st', _) \<Rightarrow> st')
      else st)"
| "dispatch toString (FetchSettled n response) st =
     (if n < length (in_flight st)
      then fst (submit_resume response (st\<lparr>in_flight := take n (in_flight st) @ drop (Suc n) (in_flight st)\<rparr>))
      else st)"
| "dispatch toString TimerFired st =
     (case timers st of
        [] \<Rightarrow> st
      | (t, delay) # ts \<Rightarrow> run_task t (st\<lparr>timers := ts\<rparr>))"
| "dispatch toString (TimeUpdate n) st =
     (if n < length (audios st)
      then st\<lparr>storage := on_timeupdate toString (audios st ! n) (storage st)\<rparr> else st)"
| "dispatch toString (Ended n) st =
     (if n < length (audios st)
      then st\<lparr>storage := on_ended (audios st ! n) (storage st)\<rparr> else st)"
| "dispatch toString (Playback n t p) st =
     (if n < length (audios st)
      then st\<lparr>audios := (audios st)[n := (audios st ! n)\<lparr>currentTime := t, paused := p\<rparr>]\<rparr> else st)"

definition run ::
  "(string \<Rightarrow> 't option) \<Rightarrow> ('t \<Rightarrow> string) \<Rightarrow> 't event list \<Rightarrow> 't page \<Rightarrow> 't page" where
  "run parseFloat toString evs st = fold (dispatch toString) evs (DOMContentLoaded parseFloat st)"

subsection \<open>Predicates of the statements\<close>

definition is_hex :: "char \<Rightarrow> bool" where
  "is_hex c = (c \<in> set ''0123456789abcdef'')"

definition shape_char :: "char \<Rightarrow> char \<Rightarrow> bool" where
  "shape_char c d =
     (if c = CHR ''x'' then is_hex d else if c = CHR ''y'' then d \<in> set ''89ab'' else d = c)"

text \<open>
  The keys of the program: the identifier key, the completed flag, and the keys with the
  audio prefix. \<open>listener_keys\<close> are the keys the audio listeners of a page close over.
\<close>

definition program_key :: "string \<Rightarrow> bool" where
  "program_key k =
     (k = STORAGE_PREFIX @ ''user_uuid'' \<or> k = STORAGE_PREFIX @ ''completed''
      \<or> startsWith k (STORAGE_PREFIX @ ''audio_''))"

definition program_keys_only :: "access list \<Rightarrow> bool" where
  "program_keys_only tr = list_all (\<lambda>a. program_key (access_key a)) tr"

definition listener_keys :: "'t page \<Rightarrow> string list" where
  "listener_keys st = concat (map listeners (audios st))"

text \<open>A group of check boxes has a checked box.\<close>

definition group_checked :: "string \<Rightarrow> 't page \<Rightarrow> bool" where
  "group_checked name st =
     (\<exists>e \<in> set (elements st).
         tag e = ''input'' \<and> type_attr e = Some ''checkbox'' \<and> name_attr e = Some name \<and> checked e)"

subsection \<open>A page to evaluate on\<close>

text \<open>
  A form with the two required check box groups, a text input, a select element and the
  submit button, and one audio element. Numbers are kept as the strings that print them.
\<close>

definition demo_elements :: "element list" where
  "demo_elements =
     [\<lparr>tag = ''input'', type_attr = Some ''checkbox'', name_attr = Some ''styles_soft_relaxing'',
       checked = True, default_checked = False, disabled = False, textContent = Markup []\<rparr>,
      \<lparr>tag = ''input'', type_attr = Some ''checkbox'', name_attr = Some ''styles_intense_emotional'',
       checked = True, default_checked = False, disabled = False, textContent = Markup []\<rparr>,
      \<lparr>tag = ''input'', type_attr = Some ''text'', name_attr = Some ''other'',
       checked = False, default_checked = False, disabled = False, textContent = Markup []\<rparr>,
      \<lparr>tag = ''select'', type_attr = None, name_attr = Some ''age'',
       checked = False, default_checked = False, disabled = False, textContent = Markup []\<rparr>,
      \<lparr>tag = ''button'', type_attr = Some ''submit'', name_attr = None,
       checked = False, default_checked = False, disabled = False, textContent = Markup ''Submit''\<rparr>]"

definition demo_page :: "element list \<Rightarrow> (string \<times> string) list \<Rightarrow> string page" where
  "demo_page es its =
     \<lparr>elements = es, form_opacity = ''1'', form_pointerEvents = ''auto'',
      status_text = Markup [], status_class = [], status_opacity = ''1'',
      status_fontWeight = ''normal'',
      storage = \<lparr>items = its, trace = []\<rparr>,
      audios = [\<lparr>currentSrc = ''https://example.org/media/a.mp3'', source_src = None,
                 currentTime = ''0'', paused = True, listeners = []\<rparr>],
      timers = [], submit_listener = False, in_flight = []\<rparr>"

definition demo_env :: submit_env where
  "demo_env =
     \<lparr>native_valid = True,
      entries = [(''styles_soft_relaxing'', ''jazz''), (''other'', ''a b'')],
      now_iso = ''2025-01-01T00:00:00.000Z'',
      math_random = (\<lambda>i. 1 / 2)\<rparr>"



text \<open>A page with a saved audio position, and a session of events on it.\<close>

definition demo_saved :: "string page" where
  "demo_saved = demo_page demo_elements [(''music_survey_audio_a.mp3'', ''1.5''), (''k'', ''v'')]"




definition demo_session :: "string event list" where
  "demo_session =
     [Playback 0 ''2.5'' False, TimeUpdate 0, Submit demo_env,
      FetchSettled 0 (Response ''opaque''), TimerFired, Playback 0 ''3.5'' False]"


section \<open>Properties\<close>

subsection \<open>Clearing the audio entries\<close>

lemma fold_remove_items:
  "items (fold (\<lambda>key s'. if P key then removeItem key s' else s') ks s)
     = filter (\<lambda>(k, v). \<not> (P k \<and> k \<in> set ks)) (items s)"
proof (induction ks arbitrary: s)
  case Nil
  then show ?case by simp
next
  case (Cons a ks)
  show ?case
    by (auto simp: Cons.IH removeItem_def AList.delete_eq intro!: filter_cong)
qed

lemma items_clearSurveyStorage:
  "items (clearSurveyStorage s)
     = filter (\<lambda>(k, v). \<not> startsWith k (STORAGE_PREFIX @ ''audio_'')) (items s)"
  unfolding clearSurveyStorage_def fold_remove_items keys_def
  by (rule filter_cong) (auto simp: rev_image_eqI)

lemma map_of_filter_key:
  "map_of (filter (\<lambda>(k, v). Q k) xs) k = (if Q k then map_of xs k else None)"
  by (induction xs) auto

lemma map_of_clearSurveyStorage:
  "map_of (items (clearSurveyStorage s)) k
     = (if startsWith k (STORAGE_PREFIX @ ''audio_'') then None else map_of (items s) k)"
  by (simp add: items_clearSurveyStorage map_of_filter_key)

text \<open>
  C9. For every store, \<^verbatim>\<open>clearSurveyStorage\<close> keeps, in their order and with their
  values, exactly the entries whose key does not start with \<open>music_survey_audio_\<close>:
  a key with that prefix is absent afterwards, every other key reads as before. The keys
  \<open>music_survey_user_uuid\<close> and \<open>music_survey_completed\<close> read as before.
\<close>

theorem clearSurveyStorage_frame:
  "items (clearSurveyStorage s)
     = filter (\<lambda>(k, v). \<not> startsWith k ''music_survey_audio_'') (items s)
   \<and> (\<forall>k. map_of (items (clearSurveyStorage s)) k
           = (if startsWith k ''music_survey_audio_'' then None else map_of (items s) k))
   \<and> map_of (items (clearSurveyStorage s)) ''music_survey_user_uuid''
       = map_of (items s) ''music_survey_user_uuid''
   \<and> map_of (items (clearSurveyStorage s)) ''music_survey_completed''
       = map_of (items s) ''music_survey_completed''"
proof -
  have p: "STORAGE_PREFIX @ ''audio_'' = ''music_survey_audio_''"
    by (simp add: STORAGE_PREFIX_def)
  have "\<not> startsWith ''music_survey_user_uuid'' ''music_survey_audio_''"
    by (simp add: startsWith_def)
  moreover have "\<not> startsWith ''music_survey_completed'' ''music_survey_audio_''"
    by (simp add: startsWith_def)
  ultimately show ?thesis
    using items_clearSurveyStorage [of s] map_of_clearSurveyStorage [of s]
    unfolding p by simp
qed

subsection \<open>The identifier is stable\<close>

lemma hex_digits_nonempty: "hex_digits n \<noteq> []"
  by (subst hex_digits.simps) simp

lemma toString16_nonempty: "toString16 v \<noteq> []"
  by (simp add: toString16_def hex_digits_nonempty)

lemma generate_uuid_nonempty: "generate_uuid r \<noteq> []"
  by (simp add: generate_uuid_def uuid_template_def uuid_replacer_def Let_def toString16_nonempty)

lemma getOrCreateUUID_stored:
  assumes "map_of (items s) (STORAGE_PREFIX @ ''user_uuid'') = Some u" "u \<noteq> []"
  shows "getOrCreateUUID r s = (u, s\<lparr>trace := trace s @ [GetItem (STORAGE_PREFIX @ ''user_uuid'')]\<rparr>)"
  using assms by (simp add: getOrCreateUUID_def getItem_def)

lemma getOrCreateUUID_result:
  assumes "getOrCreateUUID r s = (u, s1)"
  shows "map_of (items s1) (STORAGE_PREFIX @ ''user_uuid'') = Some u \<and> u \<noteq> []"
  using assms generate_uuid_nonempty [of r]
  by (auto simp: getOrCreateUUID_def getItem_def setItem_def Let_def update_conv'
           split: option.splits if_splits)

lemma getOrCreateUUID_fresh:
  assumes "getOrCreateUUID r s = (u, s1)"
    and "map_of (items s) (STORAGE_PREFIX @ ''user_uuid'') = None
         \<or> map_of (items s) (STORAGE_PREFIX @ ''user_uuid'') = Some []"
  shows "u = generate_uuid r
         \<and> items s1 = AList.update (STORAGE_PREFIX @ ''user_uuid'') u (items s)"
  using assms
  by (auto simp: getOrCreateUUID_def getItem_def setItem_def Let_def)

lemma later_calls_keep:
  assumes "map_of (items s) (STORAGE_PREFIX @ ''user_uuid'') = Some u" "u \<noteq> []"
  shows "items (fold (\<lambda>q t. snd (getOrCreateUUID q t)) rs s) = items s"
  using assms
proof (induction rs arbitrary: s)
  case Nil
  show ?case by simp
next
  case (Cons q rs)
  let ?s' = "s\<lparr>trace := trace s @ [GetItem (STORAGE_PREFIX @ ''user_uuid'')]\<rparr>"
  have step: "snd (getOrCreateUUID q s) = ?s'"
    using getOrCreateUUID_stored [OF Cons.prems] by simp
  have "items (fold (\<lambda>q t. snd (getOrCreateUUID q t)) rs ?s') = items ?s'"
    by (rule Cons.IH) (use Cons.prems in simp_all)
  then show ?case by (simp add: step)
qed

text \<open>
  C3. Let a call of \<^verbatim>\<open>getOrCreateUUID\<close> on any store return the identifier \<open>u\<close>.
  If nothing was stored under \<open>music_survey_user_uuid\<close>, then \<open>u\<close> is the generated
  identifier and it has been stored under that key. In every case the key holds \<open>u\<close>
  afterwards, and after any number of further calls (each with random numbers of its
  own) one more call returns \<open>u\<close> again and leaves the stored entries as the first call
  left them.
\<close>

theorem getOrCreateUUID_stable:
  assumes "getOrCreateUUID r s = (u, s1)"
  shows "(map_of (items s) ''music_survey_user_uuid'' = None \<longrightarrow>
            u = generate_uuid r \<and> items s1 = AList.update ''music_survey_user_uuid'' u (items s))
       \<and> map_of (items s1) ''music_survey_user_uuid'' = Some u
       \<and> (\<forall>rs r'. let sn = fold (\<lambda>q t. snd (getOrCreateUUID q t)) rs s1
                  in fst (getOrCreateUUID r' sn) = u
                     \<and> items (snd (getOrCreateUUID r' sn)) = items s1)"
proof -
  have k: "STORAGE_PREFIX @ ''user_uuid'' = ''music_survey_user_uuid''"
    by (simp add: STORAGE_PREFIX_def)
  have res: "map_of (items s1) ''music_survey_user_uuid'' = Some u" "u \<noteq> []"
    using getOrCreateUUID_result [OF assms] unfolding k by auto
  have later: "fst (getOrCreateUUID r' sn) = u \<and> items (snd (getOrCreateUUID r' sn)) = items s1"
    if "sn = fold (\<lambda>q t. snd (getOrCreateUUID q t)) rs s1" for rs r' sn
  proof -
    have i: "items sn = items s1"
      unfolding that using later_calls_keep [of s1 u rs] res unfolding k by simp
    then have "map_of (items sn) (STORAGE_PREFIX @ ''user_uuid'') = Some u"
      using res unfolding k by simp
    from getOrCreateUUID_stored [OF this res(2), of r'] i show ?thesis by simp
  qed
  have fresh: "map_of (items s) ''music_survey_user_uuid'' = None \<longrightarrow>
            u = generate_uuid r \<and> items s1 = AList.update ''music_survey_user_uuid'' u (items s)"
    using getOrCreateUUID_fresh [OF assms] unfolding k by simp
  from fresh res(1) later show ?thesis unfolding Let_def by blast
qed

theorem getOrCreateUUID_stable_witness:
  "getOrCreateUUID (\<lambda>i. 1 / 2) \<lparr>items = [], trace = []\<rparr>
     = (''88888888-8888-4888-8888-888888888888'',
        \<lparr>items = [(''music_survey_user_uuid'', ''88888888-8888-4888-8888-888888888888'')],
         trace = [GetItem ''music_survey_user_uuid'', SetItem ''music_survey_user_uuid'']\<rparr>)
   \<and> map_of (items \<lparr>items = [], trace = []\<rparr>) ''music_survey_user_uuid'' = None
   \<and> ''88888888-8888-4888-8888-888888888888'' = generate_uuid (\<lambda>i. 1 / 2)
   \<and> fst (getOrCreateUUID (\<lambda>i. 3 / 4)
        \<lparr>items = [(''music_survey_user_uuid'', ''88888888-8888-4888-8888-888888888888'')],
         trace = [GetItem ''music_survey_user_uuid'', SetItem ''music_survey_user_uuid'']\<rparr>)
       = ''88888888-8888-4888-8888-888888888888''"
proof -
  have h: "getOrCreateUUID (\<lambda>i. 1 / 2) \<lparr>items = [], trace = []\<rparr>
     = (''88888888-8888-4888-8888-888888888888'',
        \<lparr>items = [(''music_survey_user_uuid'', ''88888888-8888-4888-8888-888888888888'')],
         trace = [GetItem ''music_survey_user_uuid'', SetItem ''music_survey_user_uuid'']\<rparr>)"
    by code_simp
  note t = getOrCreateUUID_stable [OF h]
  have a: "''88888888-8888-4888-8888-888888888888'' = generate_uuid (\<lambda>i. 1 / 2)"
    using t [THEN conjunct1] by simp
  have c: "fst (getOrCreateUUID (\<lambda>i. 3 / 4)
        \<lparr>items = [(''music_survey_user_uuid'', ''88888888-8888-4888-8888-888888888888'')],
         trace = [GetItem ''music_survey_user_uuid'', SetItem ''music_survey_user_uuid'']\<rparr>)
       = ''88888888-8888-4888-8888-888888888888''"
    using t [THEN conjunct2, THEN conjunct2, rule_format, of "[]" "\<lambda>i. 3 / 4"]
    by (simp add: Let_def)
  from h a c show ?thesis by (simp del: One_nat_def)
qed

subsection \<open>The shape of a generated identifier\<close>

lemma ToInt32_draw:
  assumes "0 \<le> x" "x < 1"
  shows "0 \<le> ToInt32 (x * 16) \<and> ToInt32 (x * 16) < 16"
proof -
  have a: "0 \<le> \<lfloor>x * 16\<rfloor>" using assms by simp
  have "x * 16 < 16" using assms by simp
  then have b: "\<lfloor>x * 16\<rfloor> < 16" by (simp add: floor_less_iff)
  have c: "\<not> x * 16 < 0" using assms by simp
  from a b have "\<lfloor>x * 16\<rfloor> mod 2 ^ 32 = \<lfloor>x * 16\<rfloor>" by simp
  with a b c show ?thesis by (simp add: ToInt32_def Let_def)
qed

lemma small_int_cases:
  assumes "0 \<le> (r::int)" "r < 16"
  shows "r \<in> {0,1,2,3,4,5,6,7,8,9,10,11,12,13,14,15}"
  using assms by (simp; presburger)

lemma variant_bits:
  assumes "0 \<le> (r::int)" "r < 16"
  shows "(r AND 3) OR 8 \<in> {8, 9, 10, 11}"
  using small_int_cases [OF assms] by auto

lemma toString16_small:
  assumes "0 \<le> (r::int)" "r < 16"
  shows "toString16 r = [hex_digit (nat r)]"
  using assms by (subst toString16_def, subst hex_digits.simps) auto

lemma hex_digit_is_hex: "n < 16 \<Longrightarrow> is_hex (hex_digit n)"
  unfolding is_hex_def hex_digit_def
  by (rule nth_mem) simp

lemma replacer_x:
  assumes "0 \<le> x" "x < 1"
  shows "\<exists>d. uuid_replacer (CHR ''x'') x = [d] \<and> is_hex d"
proof -
  let ?r = "ToInt32 (x * 16)"
  have r: "0 \<le> ?r" "?r < 16" using ToInt32_draw [OF assms] by auto
  then have "nat ?r < 16" by simp
  with r show ?thesis
    by (simp add: uuid_replacer_def Let_def toString16_small hex_digit_is_hex)
qed

lemma replacer_y:
  assumes "0 \<le> x" "x < 1"
  shows "\<exists>d. uuid_replacer (CHR ''y'') x = [d] \<and> d \<in> set ''89ab''"
proof -
  let ?r = "ToInt32 (x * 16)"
  let ?v = "(?r AND 3) OR 8"
  have r: "0 \<le> ?r" "?r < 16" using ToInt32_draw [OF assms] by auto
  have v: "?v \<in> {8, 9, 10, 11}" by (rule variant_bits [OF r])
  then have "0 \<le> ?v" "?v < 16" by auto
  then have "toString16 ?v = [hex_digit (nat ?v)]" by (rule toString16_small)
  moreover have "hex_digit (nat ?v) \<in> set ''89ab''"
    using v by (auto simp: hex_digit_def)
  ultimately show ?thesis by (simp add: uuid_replacer_def Let_def)
qed

lemma replace_xy_shape:
  assumes "\<forall>i. 0 \<le> r i \<and> r i < 1"
  shows "list_all2 shape_char cs (replace_xy cs r i)"
proof (induction cs arbitrary: i)
  case Nil
  show ?case by simp
next
  case (Cons c cs)
  have d: "0 \<le> r i" "r i < 1" using assms by auto
  show ?case
  proof (cases "c = CHR ''x''")
    case True
    obtain d where "uuid_replacer (CHR ''x'') (r i) = [d]" "is_hex d"
      using replacer_x [OF d] by blast
    with True Cons.IH show ?thesis by (simp add: shape_char_def)
  next
    case False
    show ?thesis
    proof (cases "c = CHR ''y''")
      case True
      obtain d where "uuid_replacer (CHR ''y'') (r i) = [d]" "d \<in> set ''89ab''"
        using replacer_y [OF d] by blast
      with True Cons.IH show ?thesis by (simp add: shape_char_def)
    next
      case False
      with \<open>c \<noteq> CHR ''x''\<close> Cons.IH show ?thesis by (simp add: shape_char_def)
    qed
  qed
qed

lemma uuid_template_nth:
  "\<forall>i \<in> {0..<36}. uuid_template ! i =
     (if i \<in> {8, 13, 18, 23} then CHR ''-'' else if i = 14 then CHR ''4''
      else if i = 19 then CHR ''y'' else CHR ''x'')"
  by code_simp

lemma generate_uuid_shape:
  assumes "\<forall>i. 0 \<le> r i \<and> r i < 1"
  shows "length (generate_uuid r) = 36 \<and>
    (\<forall>i<36. if i \<in> {8, 13, 18, 23} then generate_uuid r ! i = CHR ''-''
       else if i = 14 then generate_uuid r ! i = CHR ''4''
       else if i = 19 then generate_uuid r ! i \<in> set ''89ab''
       else is_hex (generate_uuid r ! i))"
proof -
  let ?u = "generate_uuid r"
  have l2: "list_all2 shape_char uuid_template ?u"
    unfolding generate_uuid_def by (rule replace_xy_shape [OF assms])
  have len: "length uuid_template = 36" by (simp add: uuid_template_def)
  from l2 have len': "length ?u = 36" using len by (simp add: list_all2_lengthD [symmetric])
  have "if i \<in> {8, 13, 18, 23} then ?u ! i = CHR ''-''
       else if i = 14 then ?u ! i = CHR ''4''
       else if i = 19 then ?u ! i \<in> set ''89ab''
       else is_hex (?u ! i)" if i: "i < 36" for i
  proof -
    have a: "shape_char (uuid_template ! i) (?u ! i)"
      using l2 len i by (simp add: list_all2_conv_all_nth)
    have b: "uuid_template ! i =
     (if i \<in> {8, 13, 18, 23} then CHR ''-'' else if i = 14 then CHR ''4''
      else if i = 19 then CHR ''y'' else CHR ''x'')"
      using uuid_template_nth i by simp
    show ?thesis using a unfolding b shape_char_def by (auto split: if_splits)
  qed
  with len' show ?thesis by blast
qed

text \<open>
  C10. Whenever \<^verbatim>\<open>getOrCreateUUID\<close> generates the identifier it returns (nothing, or
  the empty string, is stored under \<open>music_survey_user_uuid\<close>), and every call of
  \<^verbatim>\<open>Math.random()\<close> returns a number from 0 up to but not including 1, the identifier
  has 36 characters: a hyphen at positions 8, 13, 18 and 23, the character 4 at position
  14, one of 8, 9, a, b at position 19, and a lower-case hexadecimal digit everywhere else.
\<close>

theorem generated_uuid_v4_form:
  assumes "\<forall>i. 0 \<le> r i \<and> r i < 1"
    and "getOrCreateUUID r s = (u, s1)"
    and "map_of (items s) ''music_survey_user_uuid'' = None
         \<or> map_of (items s) ''music_survey_user_uuid'' = Some []"
  shows "length u = 36 \<and>
    (\<forall>i<36. if i \<in> {8, 13, 18, 23} then u ! i = CHR ''-''
       else if i = 14 then u ! i = CHR ''4''
       else if i = 19 then u ! i \<in> set ''89ab''
       else u ! i \<in> set ''0123456789abcdef'')"
proof -
  have k: "STORAGE_PREFIX @ ''user_uuid'' = ''music_survey_user_uuid''"
    by (simp add: STORAGE_PREFIX_def)
  have u: "u = generate_uuid r"
    using getOrCreateUUID_fresh [OF assms(2)] assms(3) unfolding k by blast
  from generate_uuid_shape [OF assms(1)] show ?thesis
    unfolding is_hex_def u .
qed

theorem generated_uuid_v4_form_witness:
  "(\<forall>i::nat. (0::rat) \<le> 1 / 2 \<and> (1 / 2 :: rat) < 1)
   \<and> getOrCreateUUID (\<lambda>i. 1 / 2) \<lparr>items = [], trace = []\<rparr>
     = (''88888888-8888-4888-8888-888888888888'',
        \<lparr>items = [(''music_survey_user_uuid'', ''88888888-8888-4888-8888-888888888888'')],
         trace = [GetItem ''music_survey_user_uuid'', SetItem ''music_survey_user_uuid'']\<rparr>)
   \<and> map_of (items \<lparr>items = [], trace = []\<rparr>) ''music_survey_user_uuid'' = None
   \<and> length ''88888888-8888-4888-8888-888888888888'' = 36
   \<and> ''88888888-8888-4888-8888-888888888888'' ! 14 = CHR ''4''
   \<and> ''88888888-8888-4888-8888-888888888888'' ! 19 \<in> set ''89ab''"
proof -
  have d: "\<forall>i::nat. (0::rat) \<le> (\<lambda>i. 1 / 2) i \<and> (\<lambda>i. 1 / 2 :: rat) i < 1" by simp
  have h: "getOrCreateUUID (\<lambda>i. 1 / 2) \<lparr>items = [], trace = []\<rparr>
     = (''88888888-8888-4888-8888-888888888888'',
        \<lparr>items = [(''music_survey_user_uuid'', ''88888888-8888-4888-8888-888888888888'')],
         trace = [GetItem ''music_survey_user_uuid'', SetItem ''music_survey_user_uuid'']\<rparr>)"
    by code_simp
  have e: "map_of (items \<lparr>items = [], trace = []\<rparr>) ''music_survey_user_uuid'' = None
         \<or> map_of (items \<lparr>items = [], trace = []\<rparr>) ''music_survey_user_uuid'' = Some []"
    by simp
  note t = generated_uuid_v4_form [OF d h e]
  have l: "length ''88888888-8888-4888-8888-888888888888'' = 36"
    using t by blast
  have "(14::nat) < 36" "(19::nat) < 36" by simp_all
  with t have "''88888888-8888-4888-8888-888888888888'' ! 14 = CHR ''4''"
    and "''88888888-8888-4888-8888-888888888888'' ! 19 \<in> set ''89ab''"
    by force+
  with h l show ?thesis by simp
qed

subsection \<open>Locking on load\<close>

lemma lockForm_disabled:
  "\<forall>e \<in> set (elements (lockForm st)). tag e \<in> {''input'', ''button'', ''textarea''} \<longrightarrow> disabled e"
  by (auto simp: lockForm_def)

lemma lockForm_tags: "map tag (elements (lockForm st)) = map tag (elements st)"
  by (simp add: lockForm_def)


lemma initAudioPersistence_elements:
  "elements (fst (initAudioPersistence P st)) = elements st"
  "form_pointerEvents (fst (initAudioPersistence P st)) = form_pointerEvents st"
  by (simp_all add: initAudioPersistence_def split: prod.splits)

lemma DOMContentLoaded_elements:
  "elements (DOMContentLoaded P st) = elements (checkIfSubmitted st)"
  "form_pointerEvents (DOMContentLoaded P st) = form_pointerEvents (checkIfSubmitted st)"
  using initAudioPersistence_elements [of P "checkIfSubmitted st"]
  by (cases "initAudioPersistence P (checkIfSubmitted st)"; simp add: DOMContentLoaded_def)+

text \<open>
  C1. Whenever localStorage holds \<open>true\<close> under \<open>music_survey_completed\<close>,
  \<^verbatim>\<open>checkIfSubmitted\<close> leaves every input, button and textarea element of the form
  disabled (the elements themselves stay, by their tags) and the form without pointer
  events, so that no control is left from which a submission could start; the rest of the
  \<^verbatim>\<open>DOMContentLoaded\<close> listener keeps the elements that way.
\<close>

theorem checkIfSubmitted_locks:
  assumes "map_of (items (storage st)) ''music_survey_completed'' = Some ''true''"
  shows "(\<forall>e \<in> set (elements (checkIfSubmitted st)).
            tag e \<in> {''input'', ''button'', ''textarea''} \<longrightarrow> disabled e)
       \<and> map tag (elements (checkIfSubmitted st)) = map tag (elements st)
       \<and> form_pointerEvents (checkIfSubmitted st) = ''none''
       \<and> elements (DOMContentLoaded parseFloat st) = elements (checkIfSubmitted st)
       \<and> form_pointerEvents (DOMContentLoaded parseFloat st) = ''none''"
proof -
  let ?st1 = "st\<lparr>storage := snd (getItem (STORAGE_PREFIX @ ''completed'') (storage st))\<rparr>"
  have c: "checkIfSubmitted st = showStatus MsgAlreadyCompleted ''info'' (lockForm ?st1)"
    using assms by (simp add: checkIfSubmitted_def getItem_def STORAGE_PREFIX_def)
  have e: "elements (checkIfSubmitted st) = elements (lockForm ?st1)"
    unfolding c by (simp add: showStatus_def)
  have p: "form_pointerEvents (checkIfSubmitted st) = ''none''"
    unfolding c by (simp add: showStatus_def lockForm_def)
  have t: "map tag (elements (lockForm ?st1)) = map tag (elements st)"
    using lockForm_tags [of ?st1] by simp
  show ?thesis
    using lockForm_disabled [of ?st1] t p DOMContentLoaded_elements [of parseFloat st]
    unfolding e by simp
qed

theorem checkIfSubmitted_locks_witness:
  "map_of (items (storage (demo_page demo_elements [(''music_survey_completed'', ''true'')])))
      ''music_survey_completed'' = Some ''true''
   \<and> map tag (elements (checkIfSubmitted
        (demo_page demo_elements [(''music_survey_completed'', ''true'')])))
       = [''input'', ''input'', ''input'', ''select'', ''button'']
   \<and> map disabled (elements (checkIfSubmitted
        (demo_page demo_elements [(''music_survey_completed'', ''true'')])))
       = [True, True, True, False, True]
   \<and> form_pointerEvents (checkIfSubmitted
        (demo_page demo_elements [(''music_survey_completed'', ''true'')])) = ''none''
   \<and> map disabled (elements (DOMContentLoaded (\<lambda>v. Some v)
        (demo_page demo_elements [(''music_survey_completed'', ''true'')])))
       = [True, True, True, False, True]"
proof -
  let ?st = "demo_page demo_elements [(''music_survey_completed'', ''true'')]"
  have h: "map_of (items (storage ?st)) ''music_survey_completed'' = Some ''true''"
    by (simp add: demo_page_def)
  note t = checkIfSubmitted_locks [OF h, where parseFloat = "\<lambda>v. Some v"]
  have d: "map disabled (elements (checkIfSubmitted ?st)) = [True, True, True, False, True]"
    by code_simp
  have g: "map tag (elements (checkIfSubmitted ?st))
       = [''input'', ''input'', ''input'', ''select'', ''button'']"
    using t by (simp add: demo_page_def demo_elements_def)
  from t h d g show ?thesis by simp
qed

subsection \<open>Validation\<close>

lemma validate_groups_storage:
  "storage (snd (validate_groups gs st)) = storage st"
  "elements (snd (validate_groups gs st)) = elements st"
  "in_flight (snd (validate_groups gs st)) = in_flight st"
  "timers (snd (validate_groups gs st)) = timers st"
  "audios (snd (validate_groups gs st)) = audios st"
  "submit_listener (snd (validate_groups gs st)) = submit_listener st"
  by (induction gs st rule: validate_groups.induct; simp add: Let_def showStatus_def)+

lemma validate_groups_ok:
  "fst (validate_groups gs st) \<longleftrightarrow>
     (\<forall>(name, message) \<in> set gs. \<exists>e \<in> set (elements st).
         tag e = ''input'' \<and> type_attr e = Some ''checkbox'' \<and> name_attr e = Some name \<and> checked e)"
proof (induction gs)
  case Nil
  show ?case by simp
next
  case (Cons g gs)
  obtain name message where g: "g = (name, message)" by (cases g)
  show ?case
    unfolding g using Cons.IH by (auto simp: Let_def list_ex_iff)
qed

lemma validateCheckboxGroups_ok:
  "fst (validateCheckboxGroups st) \<longleftrightarrow>
     group_checked ''styles_soft_relaxing'' st \<and> group_checked ''styles_intense_emotional'' st"
  unfolding validateCheckboxGroups_def validate_groups_ok requiredGroups_def group_checked_def
  by simp

lemma validateCheckboxGroups_frame:
  "storage (snd (validateCheckboxGroups st)) = storage st"
  "elements (snd (validateCheckboxGroups st)) = elements st"
  "in_flight (snd (validateCheckboxGroups st)) = in_flight st"
  "timers (snd (validateCheckboxGroups st)) = timers st"
  "audios (snd (validateCheckboxGroups st)) = audios st"
  "submit_listener (snd (validateCheckboxGroups st)) = submit_listener st"
  by (simp_all add: validateCheckboxGroups_def validate_groups_storage)

text \<open>
  C4. When one of the two required groups has no checked box, or
  \<^verbatim>\<open>form.checkValidity()\<close> is false, the handler returns at once: no request is
  issued (the network is never asked and nothing joins the requests in flight) and
  localStorage is as it was, the trace of calls included, so the completed flag is not
  set.
\<close>

theorem validation_gates_request:
  assumes "\<not> group_checked ''styles_soft_relaxing'' st
         \<or> \<not> group_checked ''styles_intense_emotional'' st
         \<or> \<not> native_valid env"
  shows "snd (submit_start env st) = Returned
       \<and> storage (fst (submit_start env st)) = storage st
       \<and> submit_handler env fetch st = submit_start env st
       \<and> (submit_listener st \<longrightarrow>
            storage (dispatch toString (Submit env) st) = storage st
          \<and> in_flight (dispatch toString (Submit env) st) = in_flight st)"
proof -
  have v: "\<not> fst (validateCheckboxGroups st) \<or> \<not> native_valid env"
    using assms by (auto simp: validateCheckboxGroups_ok)
  have s: "storage (snd (validateCheckboxGroups st)) = storage st"
    "in_flight (snd (validateCheckboxGroups st)) = in_flight st"
    by (simp_all add: validateCheckboxGroups_def validate_groups_storage)
  from v have a: "snd (submit_start env st) = Returned"
    by (auto simp: submit_start_def split: prod.splits)
  from v s have b: "storage (fst (submit_start env st)) = storage st"
    "in_flight (fst (submit_start env st)) = in_flight st"
    by (auto simp: submit_start_def showStatus_def split: prod.splits)
  from a have c: "submit_handler env fetch st = submit_start env st"
    by (cases "submit_start env st") (simp add: submit_handler_def)
  from a b have d: "submit_listener st \<longrightarrow>
            storage (dispatch toString (Submit env) st) = storage st
          \<and> in_flight (dispatch toString (Submit env) st) = in_flight st"
    by (cases "submit_start env st") simp
  from a b c d show ?thesis by simp
qed

theorem validation_gates_request_witness:
  "\<not> group_checked ''styles_soft_relaxing''
        (demo_page (map (\<lambda>e. e\<lparr>checked := False\<rparr>) demo_elements) [])
   \<and> snd (submit_start demo_env
        (demo_page (map (\<lambda>e. e\<lparr>checked := False\<rparr>) demo_elements) [])) = Returned
   \<and> storage (fst (submit_start demo_env
        (demo_page (map (\<lambda>e. e\<lparr>checked := False\<rparr>) demo_elements) [])))
       = \<lparr>items = [], trace = []\<rparr>"
proof -
  let ?st = "demo_page (map (\<lambda>e. e\<lparr>checked := False\<rparr>) demo_elements) []"
  have g: "\<not> group_checked ''styles_soft_relaxing'' ?st"
    by (simp add: group_checked_def demo_page_def demo_elements_def)
  then have h: "\<not> group_checked ''styles_soft_relaxing'' ?st
    \<or> \<not> group_checked ''styles_intense_emotional'' ?st \<or> \<not> native_valid demo_env"
    by simp
  note t = validation_gates_request [OF h, where fetch = "\<lambda>_. NetworkError" and toString = "\<lambda>t. t"]
  have "storage ?st = \<lparr>items = [], trace = []\<rparr>" by (simp add: demo_page_def)
  with t g show ?thesis by simp
qed

subsection \<open>The request\<close>

lemma update_first_None: "update_first P f xs = None \<longleftrightarrow> \<not> (\<exists>x \<in> set xs. P x)"
  by (induction xs) auto




lemma submit_start_valid:
  assumes "fst (validateCheckboxGroups st)" "native_valid env"
    and "getOrCreateUUID (math_random env) (storage st) = (u, sto)"
  shows "submit_start env st =
     (let st2 = showStatus MsgSubmitting ''info'' ((snd (validateCheckboxGroups st))\<lparr>storage := sto\<rparr>)
      in case update_first is_submit_button
                (\<lambda>b. b\<lparr>disabled := True, textContent := BtnProcessing\<rparr>) (elements st2) of
           None \<Rightarrow> catch_block st2
         | Some es \<Rightarrow>
             (st2\<lparr>elements := es\<rparr>,
              Awaiting \<lparr>url = GAS_WEB_APP_URL, http_method = ''POST'', mode = ''no-cors'',
                content_type = ''application/x-www-form-urlencoded'',
                body = URLSearchParams_toString
                  (entries env @ [(''submission_time'', now_iso env), (''uuid'', u)])\<rparr>))"
proof -
  obtain ok st1 where vc: "validateCheckboxGroups st = (ok, st1)"
    by (cases "validateCheckboxGroups st")
  have ok: "ok" using assms(1) vc by simp
  have sto: "storage st1 = storage st"
    using validateCheckboxGroups_frame(1) [of st] vc by simp
  show ?thesis
    using ok assms(2,3) by (simp add: submit_start_def vc sto Let_def cong: option.case_cong)
qed

text \<open>
  C5. When validation passes, the request the handler issues goes to the backend address
  as a POST whose body is the urlencoded serialisation of the form's entries followed by
  \<open>submission_time\<close>, holding the ISO string of the current time, and \<open>uuid\<close>, holding
  what \<^verbatim>\<open>getOrCreateUUID\<close> returns; a form without a submit button throws before any
  request is issued.
\<close>

theorem request_payload:
  assumes "group_checked ''styles_soft_relaxing'' st"
    and "group_checked ''styles_intense_emotional'' st"
    and "native_valid env"
  shows "if \<exists>e \<in> set (elements st). is_submit_button e
         then snd (submit_start env st) =
                Awaiting \<lparr>url = GAS_WEB_APP_URL, http_method = ''POST'', mode = ''no-cors'',
                  content_type = ''application/x-www-form-urlencoded'',
                  body = URLSearchParams_toString
                    (entries env @
                      [(''submission_time'', now_iso env),
                       (''uuid'', fst (getOrCreateUUID (math_random env) (storage st)))])\<rparr>
         else snd (submit_start env st) = Rejected"
proof -
  obtain u sto where g: "getOrCreateUUID (math_random env) (storage st) = (u, sto)"
    by (cases "getOrCreateUUID (math_random env) (storage st)")
  have v: "fst (validateCheckboxGroups st)"
    using assms by (simp add: validateCheckboxGroups_ok)
  note s = submit_start_valid [OF v assms(3) g]
  let ?st2 = "showStatus MsgSubmitting ''info'' ((snd (validateCheckboxGroups st))\<lparr>storage := sto\<rparr>)"
  have e: "elements ?st2 = elements st"
    by (simp add: showStatus_def validateCheckboxGroups_frame)
  show ?thesis
  proof (cases "\<exists>e \<in> set (elements st). is_submit_button e")
    case True
    then obtain es where "update_first is_submit_button
        (\<lambda>b. b\<lparr>disabled := True, textContent := BtnProcessing\<rparr>) (elements ?st2) = Some es"
      using update_first_None [of is_submit_button _ "elements st"] e by fastforce
    with True g show ?thesis unfolding s by (simp add: Let_def)
  next
    case False
    then have n: "update_first is_submit_button f (elements ?st2) = None" for f
      using update_first_None [of is_submit_button f "elements st"] e by simp
    have "catch_block ?st2 = (?st2, Rejected)"
      by (simp add: catch_block_def n)
    with False show ?thesis unfolding s by (simp add: Let_def n)
  qed
qed

theorem request_payload_witness:
  "group_checked ''styles_soft_relaxing'' (demo_page demo_elements [])
   \<and> group_checked ''styles_intense_emotional'' (demo_page demo_elements [])
   \<and> native_valid demo_env
   \<and> snd (submit_start demo_env (demo_page demo_elements [])) =
       Awaiting \<lparr>url = GAS_WEB_APP_URL, http_method = ''POST'', mode = ''no-cors'',
         content_type = ''application/x-www-form-urlencoded'',
         body = ''styles_soft_relaxing=jazz&other=a+b&submission_time=2025-01-01T00%3A00%3A00.000Z&uuid=88888888-8888-4888-8888-888888888888''\<rparr>"
proof -
  let ?st = "demo_page demo_elements []"
  have h1: "group_checked ''styles_soft_relaxing'' ?st"
    by (simp add: group_checked_def demo_page_def demo_elements_def)
  have h2: "group_checked ''styles_intense_emotional'' ?st"
    by (simp add: group_checked_def demo_page_def demo_elements_def)
  have h3: "native_valid demo_env" by (simp add: demo_env_def)
  note t = request_payload [OF h1 h2 h3]
  have c: "\<exists>e \<in> set (elements ?st). is_submit_button e"
    by (simp add: demo_page_def demo_elements_def is_submit_button_def)
  have b: "URLSearchParams_toString
             (entries demo_env @
               [(''submission_time'', now_iso demo_env),
                (''uuid'', fst (getOrCreateUUID (math_random demo_env) (storage ?st)))])
     = ''styles_soft_relaxing=jazz&other=a+b&submission_time=2025-01-01T00%3A00%3A00.000Z&uuid=88888888-8888-4888-8888-888888888888''"
    by code_simp
  from t c have "snd (submit_start demo_env ?st) =
                Awaiting \<lparr>url = GAS_WEB_APP_URL, http_method = ''POST'', mode = ''no-cors'',
                  content_type = ''application/x-www-form-urlencoded'',
                  body = URLSearchParams_toString
                    (entries demo_env @
                      [(''submission_time'', now_iso demo_env),
                       (''uuid'', fst (getOrCreateUUID (math_random demo_env) (storage ?st)))])\<rparr>"
    by (simp only: if_True)
  with h1 h2 h3 show ?thesis unfolding b by blast
qed

subsection \<open>Failure of the request\<close>

lemma is_submit_button_update [simp]:
  "is_submit_button (b\<lparr>disabled := d, textContent := t\<rparr>) = is_submit_button b"
  by (simp add: is_submit_button_def)








subsection \<open>Success of the request\<close>







subsection \<open>Audio progress\<close>




lemma checkIfSubmitted_frame:
  "audios (checkIfSubmitted st) = audios st"
  "items (storage (checkIfSubmitted st)) = items (storage st)"
  by (simp_all add: checkIfSubmitted_def getItem_def showStatus_def lockForm_def Let_def)









lemma catch_block_audios: "audios (fst (catch_block st)) = audios st"
  by (simp add: catch_block_def showStatus_def split: option.splits)

lemma submit_start_audios: "audios (fst (submit_start env st)) = audios st"
proof -
  obtain ok st1 where vc: "validateCheckboxGroups st = (ok, st1)"
    by (cases "validateCheckboxGroups st")
  have a: "audios st1 = audios st"
    using validateCheckboxGroups_frame(5) [of st] vc by simp
  obtain u sto where g: "getOrCreateUUID (math_random env) (storage st1) = (u, sto)"
    by (cases "getOrCreateUUID (math_random env) (storage st1)")
  show ?thesis
    using a catch_block_audios [of "showStatus MsgSubmitting ''info'' (st1\<lparr>storage := sto\<rparr>)"]
    by (simp add: submit_start_def vc g showStatus_def Let_def split: option.splits)
qed

lemma submit_resume_audios: "audios (fst (submit_resume response st)) = audios st"
  using catch_block_audios [of st]
  by (simp add: submit_resume_def Let_def setTimeout_def form_reset_def showStatus_def
           split: fetch_result.splits)

lemma dispatch_listeners:
  "map listeners (audios (dispatch T ev st)) = map listeners (audios st)"
proof (cases ev)
  case (Submit env)
  then show ?thesis
    using submit_start_audios [of env st]
    by (cases "submit_start env st") (auto split: outcome.splits)
next
  case (FetchSettled n response)
  then show ?thesis
    using submit_resume_audios [of response "st\<lparr>in_flight := take n (in_flight st) @ drop (Suc n) (in_flight st)\<rparr>"]
    by simp
next
  case TimerFired
  have "audios (run_task t q) = audios q" for t and q :: "'a page"
    by (cases t) (simp add: lockForm_def)
  with TimerFired show ?thesis by (simp split: list.splits)
next
  case (TimeUpdate n)
  then show ?thesis by simp
next
  case (Ended n)
  then show ?thesis by simp
next
  case (Playback n t p)
  then show ?thesis by (simp add: map_update list_update_same_conv)
qed






subsection \<open>The keys the program touches\<close>

lemma startsWith_append:
  assumes "startsWith k (p @ q)"
  shows "startsWith k p"
proof -
  have h: "take (length p + length q) k = p @ q"
    using assms by (simp add: startsWith_def)
  have "take (length p) k = take (length p) (take (length p + length q) k)"
    by (simp add: min_def)
  also have "\<dots> = take (length p) (p @ q)" by (simp only: h)
  also have "\<dots> = p" by simp
  finally show ?thesis by (simp add: startsWith_def)
qed

lemma startsWith_self: "startsWith (p @ x) p"
  by (simp add: startsWith_def)

lemma program_key_prefix: "program_key k \<Longrightarrow> startsWith k STORAGE_PREFIX"
  using startsWith_append [of k STORAGE_PREFIX "''audio_''"]
  by (auto simp: program_key_def startsWith_self)

lemma program_key_simps [simp]:
  "program_key (STORAGE_PREFIX @ ''user_uuid'')"
  "program_key (STORAGE_PREFIX @ ''completed'')"
  "program_key (audio_storageKey src)"
  by (simp_all add: program_key_def audio_storageKey_def startsWith_def Let_def)

lemma program_keys_only_append [simp]:
  "program_keys_only (xs @ ys) \<longleftrightarrow> program_keys_only xs \<and> program_keys_only ys"
  by (simp add: program_keys_only_def)

lemma program_keys_only_Cons [simp]:
  "program_keys_only (a # tr) \<longleftrightarrow> program_key (access_key a) \<and> program_keys_only tr"
  "program_keys_only []"
  by (simp_all add: program_keys_only_def)

lemma clearSurveyStorage_trace:
  assumes "program_keys_only (trace s)"
  shows "program_keys_only (trace (clearSurveyStorage s))"
proof -
  have "program_keys_only (trace (fold (\<lambda>key s'. if startsWith key (STORAGE_PREFIX @ ''audio_'')
            then removeItem key s' else s') ks t))"
    if "program_keys_only (trace t)" for ks t
    using that by (induction ks arbitrary: t) (simp_all add: removeItem_def program_key_def)
  from this [OF assms] show ?thesis by (simp add: clearSurveyStorage_def)
qed

lemma getOrCreateUUID_trace:
  assumes "program_keys_only (trace s)"
  shows "program_keys_only (trace (snd (getOrCreateUUID r s)))"
  using assms
  by (simp add: getOrCreateUUID_def getItem_def setItem_def Let_def split: option.splits)

lemma checkIfSubmitted_trace:
  assumes "program_keys_only (trace (storage st))"
  shows "program_keys_only (trace (storage (checkIfSubmitted st)))"
  using assms
  by (simp add: checkIfSubmitted_def getItem_def showStatus_def lockForm_def Let_def)

lemma init_audio_trace:
  assumes "init_audio P a s = (a', s', ok)" "program_keys_only (trace s)"
    "\<forall>k \<in> set (listeners a). program_key k"
  shows "program_keys_only (trace s') \<and> (\<forall>k \<in> set (listeners a'). program_key k)"
  using assms
  by (auto simp: init_audio_def getItem_def Let_def split: option.splits if_splits)

lemma init_audios_trace:
  assumes "init_audios P as s = (as', s', ok)" "program_keys_only (trace s)"
    "\<forall>a \<in> set as. \<forall>k \<in> set (listeners a). program_key k"
  shows "program_keys_only (trace s') \<and> (\<forall>a \<in> set as'. \<forall>k \<in> set (listeners a). program_key k)"
  using assms
proof (induction as arbitrary: s as' s' ok)
  case Nil
  then show ?case by simp
next
  case (Cons a as)
  obtain a1 s1 ok1 where i: "init_audio P a s = (a1, s1, ok1)"
    by (cases "init_audio P a s") auto
  have one: "program_keys_only (trace s1)" "\<forall>k \<in> set (listeners a1). program_key k"
    using init_audio_trace [OF i Cons.prems(2)] Cons.prems(3) by auto
  show ?case
  proof (cases ok1)
    case False
    then show ?thesis using Cons.prems i one by auto
  next
    case True
    obtain as1 s2 ok2 where r: "init_audios P as s1 = (as1, s2, ok2)"
      by (cases "init_audios P as s1") auto
    have "program_keys_only (trace s2) \<and> (\<forall>a \<in> set as1. \<forall>k \<in> set (listeners a). program_key k)"
      by (rule Cons.IH [OF r one(1)]) (use Cons.prems(3) in simp)
    then show ?thesis using Cons.prems(1) i True r one by auto
  qed
qed

lemma catch_block_storage: "storage (fst (catch_block st)) = storage st"
  by (simp add: catch_block_def showStatus_def split: option.splits)

lemma submit_start_trace:
  assumes "program_keys_only (trace (storage st))"
  shows "program_keys_only (trace (storage (fst (submit_start env st))))"
proof -
  obtain ok st1 where vc: "validateCheckboxGroups st = (ok, st1)"
    by (cases "validateCheckboxGroups st")
  have a: "storage st1 = storage st"
    using validateCheckboxGroups_frame(1) [of st] vc by simp
  obtain u sto where g: "getOrCreateUUID (math_random env) (storage st) = (u, sto)"
    by (cases "getOrCreateUUID (math_random env) (storage st)")
  have sto: "program_keys_only (trace sto)"
    using getOrCreateUUID_trace [OF assms, of "math_random env"] g by simp
  show ?thesis
    using assms sto catch_block_storage [of "showStatus MsgSubmitting ''info'' (st1\<lparr>storage := sto\<rparr>)"]
    by (simp add: submit_start_def vc a g showStatus_def Let_def split: option.splits)
qed

lemma submit_resume_trace:
  assumes "program_keys_only (trace (storage st))"
  shows "program_keys_only (trace (storage (fst (submit_resume response st))))"
  using assms catch_block_storage [of st] clearSurveyStorage_trace [OF assms]
  by (simp add: submit_resume_def Let_def setTimeout_def form_reset_def showStatus_def setItem_def
           split: fetch_result.splits)

lemma on_timeupdate_trace:
  assumes "program_keys_only (trace s)" "\<forall>k \<in> set (listeners a). program_key k"
  shows "program_keys_only (trace (on_timeupdate T a s))"
proof -
  have "program_keys_only (trace (fold (\<lambda>k s'. if \<not> paused a then setItem k v s' else s') ks t))"
    if "program_keys_only (trace t)" "\<forall>k \<in> set ks. program_key k" for ks t v
    using that by (induction ks arbitrary: t) (simp_all add: setItem_def)
  from this [OF assms] show ?thesis by (simp add: on_timeupdate_def)
qed

lemma on_ended_trace:
  assumes "program_keys_only (trace s)" "\<forall>k \<in> set (listeners a). program_key k"
  shows "program_keys_only (trace (on_ended a s))"
proof -
  have "program_keys_only (trace (fold (\<lambda>k s'. removeItem k s') ks t))"
    if "program_keys_only (trace t)" "\<forall>k \<in> set ks. program_key k" for ks t
    using that by (induction ks arbitrary: t) (simp_all add: removeItem_def)
  from this [OF assms] show ?thesis by (simp add: on_ended_def)
qed

lemma listener_keys_dispatch: "listener_keys (dispatch T ev st) = listener_keys st"
  by (simp add: listener_keys_def dispatch_listeners)

lemma listener_keys_nth:
  assumes "n < length (audios st)"
  shows "set (listeners (audios st ! n)) \<subseteq> set (listener_keys st)"
proof -
  have "audios st ! n \<in> set (audios st)" using assms by (rule nth_mem)
  then show ?thesis unfolding listener_keys_def by auto
qed

lemma dispatch_trace:
  assumes "program_keys_only (trace (storage st))" "\<forall>k \<in> set (listener_keys st). program_key k"
  shows "program_keys_only (trace (storage (dispatch T ev st)))"
proof (cases ev)
  case (Submit env)
  then show ?thesis
    using submit_start_trace [OF assms(1), of env] assms(1)
    by (cases "submit_start env st") (auto split: outcome.splits)
next
  case (FetchSettled n response)
  then show ?thesis
    using submit_resume_trace [of "st\<lparr>in_flight := take n (in_flight st) @ drop (Suc n) (in_flight st)\<rparr>" response]
      assms(1) by simp
next
  case TimerFired
  have "storage (run_task t q) = storage q" for t and q :: "'a page"
    by (cases t) (simp add: lockForm_def)
  with TimerFired assms(1) show ?thesis by (simp split: list.splits)
next
  case (TimeUpdate n)
  then show ?thesis
    using assms on_timeupdate_trace [of "storage st" "audios st ! n" T] listener_keys_nth [of n st]
    by auto
next
  case (Ended n)
  then show ?thesis
    using assms on_ended_trace [of "storage st" "audios st ! n"] listener_keys_nth [of n st]
    by auto
next
  case (Playback n t p)
  then show ?thesis using assms(1) by simp
qed

lemma fold_dispatch_trace:
  assumes "program_keys_only (trace (storage st))" "\<forall>k \<in> set (listener_keys st). program_key k"
  shows "program_keys_only (trace (storage (fold (dispatch T) evs st)))"
  using assms
proof (induction evs arbitrary: st)
  case Nil
  then show ?case by simp
next
  case (Cons ev evs)
  have "program_keys_only (trace (storage (fold (dispatch T) evs (dispatch T ev st))))"
    by (rule Cons.IH) (use Cons.prems dispatch_trace [of st T ev] listener_keys_dispatch [of T ev st] in simp_all)
  then show ?case by simp
qed

lemma DOMContentLoaded_trace:
  assumes "program_keys_only (trace (storage st))" "\<forall>k \<in> set (listener_keys st). program_key k"
  shows "program_keys_only (trace (storage (DOMContentLoaded P st)))
       \<and> (\<forall>k \<in> set (listener_keys (DOMContentLoaded P st)). program_key k)"
proof -
  let ?st0 = "checkIfSubmitted st"
  obtain as s' ok where ia: "init_audios P (audios st) (storage ?st0) = (as, s', ok)"
    by (cases "init_audios P (audios st) (storage ?st0)") auto
  have l: "\<forall>a \<in> set (audios st). \<forall>k \<in> set (listeners a). program_key k"
    using assms(2) by (auto simp: listener_keys_def)
  note t = init_audios_trace [OF ia checkIfSubmitted_trace [OF assms(1)] l]
  have d: "storage (DOMContentLoaded P st) = s'" "audios (DOMContentLoaded P st) = as"
    by (simp_all add: DOMContentLoaded_def initAudioPersistence_def checkIfSubmitted_frame(1) ia)
  show ?thesis using t unfolding d listener_keys_def d by auto
qed

text \<open>
  C8. Start from a page on which the script has not run yet (no call on localStorage
  made, no audio listener added). After the load listener and any sequence of events,
  every key that \<^verbatim>\<open>getItem\<close>, \<^verbatim>\<open>setItem\<close> or \<^verbatim>\<open>removeItem\<close> was called with begins
  with \<open>music_survey_\<close>: it is the identifier key, the completed flag, or a key with the
  prefix \<open>music_survey_audio_\<close>. (\<^verbatim>\<open>Object.keys(localStorage)\<close> lists all keys and
  reads no entry.)
\<close>

theorem key_prefix_invariant:
  assumes "trace (storage st) = []"
    and "\<forall>a \<in> set (audios st). listeners a = []"
  shows "\<forall>a \<in> set (trace (storage (run parseFloat toString evs st))).
           startsWith (access_key a) ''music_survey_''
         \<and> (access_key a = ''music_survey_user_uuid'' \<or> access_key a = ''music_survey_completed''
            \<or> startsWith (access_key a) ''music_survey_audio_'')"
proof -
  have a: "program_keys_only (trace (storage st))" using assms(1) by simp
  have b: "\<forall>k \<in> set (listener_keys st). program_key k"
    using assms(2) by (simp add: listener_keys_def)
  note d = DOMContentLoaded_trace [OF a b, of parseFloat]
  have "program_keys_only (trace (storage (run parseFloat toString evs st)))"
    unfolding run_def using d by (intro fold_dispatch_trace) auto
  then have "\<forall>a \<in> set (trace (storage (run parseFloat toString evs st))). program_key (access_key a)"
    by (simp add: program_keys_only_def list_all_iff)
  then show ?thesis
    using program_key_prefix by (fastforce simp: program_key_def STORAGE_PREFIX_def)
qed

theorem key_prefix_invariant_witness:
  "trace (storage demo_saved) = []
   \<and> map listeners (audios demo_saved) = [[]]
   \<and> trace (storage (run Some id demo_session demo_saved))
       = [GetItem ''music_survey_completed'', GetItem ''music_survey_audio_a.mp3'',
          SetItem ''music_survey_audio_a.mp3'', GetItem ''music_survey_user_uuid'',
          SetItem ''music_survey_user_uuid'', RemoveItem ''music_survey_audio_a.mp3'',
          SetItem ''music_survey_completed'']
   \<and> list_all (\<lambda>a. startsWith (access_key a) ''music_survey_'')
        (trace (storage (run Some id demo_session demo_saved)))"
proof -
  have h1: "trace (storage demo_saved) = []" by (simp add: demo_saved_def demo_page_def)
  have h2: "\<forall>a \<in> set (audios demo_saved). listeners a = []"
    by (simp add: demo_saved_def demo_page_def)
  note t = key_prefix_invariant [OF h1 h2, of Some id demo_session]
  have tr: "trace (storage (run Some id demo_session demo_saved))
       = [GetItem ''music_survey_completed'', GetItem ''music_survey_audio_a.mp3'',
          SetItem ''music_survey_audio_a.mp3'', GetItem ''music_survey_user_uuid'',
          SetItem ''music_survey_user_uuid'', RemoveItem ''music_survey_audio_a.mp3'',
          SetItem ''music_survey_completed'']"
    by code_simp
  have h2': "map listeners (audios demo_saved) = [[]]"
    by (simp add: demo_saved_def demo_page_def)
  from t have "list_all (\<lambda>a. startsWith (access_key a) ''music_survey_'')
        (trace (storage (run Some id demo_session demo_saved)))"
    unfolding list_all_iff by blast
  with h1 h2' tr show ?thesis by blast
qed

end
